theory Spec2Isabelle
  imports Complex_Main
begin

section \<open>Data model (server/models/User.js, server/models/SwapRequest.js)\<close>

text \<open>
  A MongoDB ObjectId is a 12-byte value and a Date a point in time; both are natural
  numbers here. A collection is the list of its documents, each carrying its
  own id. JavaScript numbers are modelled exactly: \<open>totalRatings\<close> is a count,
  \<open>ratingSum\<close> a sum of integer ratings and \<open>rating\<close> a rational.
  Only the fields that the swap lifecycle reads or writes are kept; a user's name, email,
  password and profile and the \<open>createdAt\<close>/\<open>updatedAt\<close> stamps are left out.
\<close>

type_synonym oid = nat
type_synonym date = nat

datatype status = Pending | Accepted | Rejected | Completed | Cancelled

record user =
  user_id :: oid
  skillsOffered :: "string list"
  isPublic :: bool
  isAdmin :: bool
  isBanned :: bool
  rating :: rat
  totalRatings :: nat
  ratingSum :: int

record swap_request =
  swap_id :: oid
  requester :: oid
  receiver :: oid
  skillOffered :: string
  skillWanted :: string
  message :: "string option"
  status :: status
  req_rating :: "int option"
  feedback :: "string option"
  completedAt :: "date option"
  acceptedAt :: "date option"
  rejectedAt :: "date option"

record store =
  users :: "user list"
  swaps :: "swap_request list"

text \<open>A failed call answers with an HTTP status code and a message.\<close>

type_synonym failure = "nat \<times> string"



section \<open>Collections\<close>

definition findById_user :: "user list \<Rightarrow> oid \<Rightarrow> user option" where
  "findById_user us i = find (\<lambda>u. user_id u = i) us"

definition findById_swap :: "swap_request list \<Rightarrow> oid \<Rightarrow> swap_request option" where
  "findById_swap rs i = find (\<lambda>r. swap_id r = i) rs"

text \<open>
  \<open>populate\<close> replaces a reference by the referenced user document, or by \<open>null\<close>
  when no such user exists; the handlers only read \<open>_id\<close> of the result, and reading
  \<open>_id\<close> of \<open>null\<close> throws.
\<close>

definition populate :: "user list \<Rightarrow> oid \<Rightarrow> oid option" where
  "populate us i = map_option user_id (findById_user us i)"

text \<open>
  \<open>save()\<close> of a loaded user document first runs the schema validators (of the
  fields kept here only \<open>rating\<close> has any: min 1, max 5) and rejects when one fails;
  otherwise the stored document is replaced.
\<close>

definition validate_user :: "user \<Rightarrow> bool" where
  "validate_user u \<longleftrightarrow> 1 \<le> rating u \<and> rating u \<le> 5"

definition user_save :: "user \<Rightarrow> user list \<Rightarrow> user list option" where
  "user_save u us =
     (if validate_user u
      then Some (map (\<lambda>x. if user_id x = user_id u then u else x) us)
      else None)"

text \<open>The pre-save hook of \<open>swapRequestSchema\<close>; \<open>old\<close> is the document as loaded,
  so \<open>isModified('status')\<close> is \<open>status this \<noteq> status old\<close>.\<close>

definition pre_save :: "date \<Rightarrow> swap_request \<Rightarrow> swap_request \<Rightarrow> swap_request" where
  "pre_save now old this =
     (if status this \<noteq> status old then
        (case status this of
           Accepted \<Rightarrow> if acceptedAt this = None then this\<lparr>acceptedAt := Some now\<rparr> else this
         | Rejected \<Rightarrow> if rejectedAt this = None then this\<lparr>rejectedAt := Some now\<rparr> else this
         | Completed \<Rightarrow> if completedAt this = None then this\<lparr>completedAt := Some now\<rparr> else this
         | _ \<Rightarrow> this)
      else this)"

text \<open>Saving a loaded swap request: the hook runs, then the stored document is replaced.
  The route validators bound every field a handler writes at least as tightly as the
  schema does, so the schema validators of a swap request are not repeated here.\<close>

definition swap_save :: "date \<Rightarrow> swap_request \<Rightarrow> swap_request \<Rightarrow> swap_request list
    \<Rightarrow> swap_request \<times> swap_request list" where
  "swap_save now old this rs =
     (let saved = pre_save now old this
      in (saved, map (\<lambda>x. if swap_id x = swap_id saved then saved else x) rs))"

definition is_open :: "status \<Rightarrow> bool" where
  "is_open st \<longleftrightarrow> st = Pending \<or> st = Accepted"

text \<open>Inserting a new document fails on a duplicate \<open>_id\<close> and on the unique partial
  index over (requester, receiver, skillOffered, skillWanted) among the documents whose
  status is pending or accepted.\<close>

definition index_conflict :: "swap_request \<Rightarrow> swap_request list \<Rightarrow> bool" where
  "index_conflict d rs \<longleftrightarrow>
     (\<exists>x \<in> set rs. swap_id x = swap_id d) \<or>
     (is_open (status d) \<and>
      (\<exists>x \<in> set rs. is_open (status x) \<and> requester x = requester d \<and> receiver x = receiver d
          \<and> skillOffered x = skillOffered d \<and> skillWanted x = skillWanted d))"

definition updateMany :: "(swap_request \<Rightarrow> bool) \<Rightarrow> (swap_request \<Rightarrow> swap_request)
    \<Rightarrow> swap_request list \<Rightarrow> swap_request list" where
  "updateMany flt upd rs = map (\<lambda>r. if flt r then upd r else r) rs"

definition findByIdAndDelete :: "oid \<Rightarrow> swap_request list \<Rightarrow> swap_request list" where
  "findByIdAndDelete i rs = filter (\<lambda>r. swap_id r \<noteq> i) rs"

section \<open>Rating aggregation (userSchema.methods.updateRating)\<close>

text \<open>\<open>Math.round\<close>: the nearest integer, a tie going towards plus infinity.\<close>

definition Math_round :: "rat \<Rightarrow> int" where
  "Math_round x = \<lfloor>x + 1 / 2\<rfloor>"

definition updateRating :: "user \<Rightarrow> int \<Rightarrow> user list \<Rightarrow> user list option" where
  "updateRating this newRating us =
     (let s = ratingSum this + newRating;
          n = totalRatings this + 1;
          r = of_int (Math_round ((of_int s / of_nat n) * 10)) / 10
      in user_save (this\<lparr>ratingSum := s, totalRatings := n, rating := r\<rparr>) us)"

section \<open>ObjectIds and their strings\<close>

text \<open>
  An id travels in a request as a string of 24 hexadecimal digits. \<open>isMongoId\<close> and the
  cast to an ObjectId accept both cases of the letters; \<open>toString()\<close> of an ObjectId
  prints lower-case digits.
\<close>

definition hex_char :: "nat \<Rightarrow> char" where
  "hex_char d = ''0123456789abcdef'' ! d"

definition hex_val :: "char \<Rightarrow> nat option" where
  "hex_val c = map_of (zip ''0123456789abcdefABCDEF'' ([0..<16] @ [10..<16])) c"

definition isMongoId :: "string \<Rightarrow> bool" where
  "isMongoId str \<longleftrightarrow> length str = 24 \<and> list_all (\<lambda>c. hex_val c \<noteq> None) str"

definition ObjectId :: "string \<Rightarrow> oid" where
  "ObjectId str =
     foldl (\<lambda>a c. 16 * a + (case hex_val c of Some d \<Rightarrow> d | None \<Rightarrow> 0)) 0 str"

fun hex_string :: "nat \<Rightarrow> nat \<Rightarrow> string" where
  "hex_string 0 i = []"
| "hex_string (Suc n) i = hex_string n (i div 16) @ [hex_char (i mod 16)]"

definition toString :: "oid \<Rightarrow> string" where
  "toString i = hex_string 24 i"

section \<open>Swap lifecycle (server/routes/swaps.js)\<close>

text \<open>
  Every handler is modelled from the point where the authentication middleware has
  attached \<open>req.user\<close>; body strings are the values after the \<open>trim\<close> sanitizer, and a
  rating is a JSON number. An id in the route path is used only through the cast to an
  ObjectId, so a handler takes it as the ObjectId; the \<open>receiverId\<close> of the body of Create
  is also compared as a string and is kept as the string. A handler returns its answer
  and the store it leaves behind.
\<close>

definition valid_create_body :: "string \<Rightarrow> string \<Rightarrow> string \<Rightarrow> string option \<Rightarrow> bool" where
  "valid_create_body receiverId so sw msg \<longleftrightarrow>
     isMongoId receiverId \<and>
     1 \<le> length so \<and> length so \<le> 100 \<and> 1 \<le> length sw \<and> length sw \<le> 100 \<and>
     (case msg of None \<Rightarrow> True | Some m \<Rightarrow> length m \<le> 1000)"

definition valid_complete_body :: "int \<Rightarrow> string option \<Rightarrow> bool" where
  "valid_complete_body rt fb \<longleftrightarrow>
     1 \<le> rt \<and> rt \<le> 5 \<and> (case fb of None \<Rightarrow> True | Some f \<Rightarrow> length f \<le> 500)"

definition existingRequest :: "oid \<Rightarrow> oid \<Rightarrow> swap_request list \<Rightarrow> swap_request option" where
  "existingRequest rq rc rs =
     find (\<lambda>r. requester r = rq \<and> receiver r = rc \<and> (status r = Pending \<or> status r = Accepted)) rs"

definition new_swap :: "oid \<Rightarrow> oid \<Rightarrow> oid \<Rightarrow> string \<Rightarrow> string \<Rightarrow> string option \<Rightarrow> swap_request" where
  "new_swap i rq rc so sw msg =
     \<lparr>swap_id = i, requester = rq, receiver = rc, skillOffered = so, skillWanted = sw,
      message = msg, status = Pending, req_rating = None, feedback = None,
      completedAt = None, acceptedAt = None, rejectedAt = None\<rparr>"

text \<open>POST /api/swaps. \<open>new_id\<close> is the ObjectId that \<open>new SwapRequest\<close> draws. The
  self-request test compares the caller's id as \<open>toString()\<close> prints it with the string
  of the body; the lookups and the new document use the ObjectId the string casts to.\<close>

definition create :: "user \<Rightarrow> string \<Rightarrow> string \<Rightarrow> string \<Rightarrow> string option \<Rightarrow> oid \<Rightarrow> store
    \<Rightarrow> (failure + swap_request) \<times> store" where
  "create req_user receiverId so sw msg new_id s =
     (if \<not> valid_create_body receiverId so sw msg then (Inl (400, ''Validation failed''), s)
      else case findById_user (users s) (ObjectId receiverId) of
        None \<Rightarrow> (Inl (404, ''Receiver not found or unavailable''), s)
      | Some rcv \<Rightarrow>
          if isBanned rcv \<or> \<not> isPublic rcv
            then (Inl (404, ''Receiver not found or unavailable''), s)
          else if toString (user_id req_user) = receiverId
            then (Inl (400, ''Cannot send swap request to yourself''), s)
          else if so \<notin> set (skillsOffered req_user)
            then (Inl (400, ''You do not have the offered skill in your profile''), s)
          else if sw \<notin> set (skillsOffered rcv)
            then (Inl (400, ''Receiver does not offer the requested skill''), s)
          else (case existingRequest (user_id req_user) (ObjectId receiverId) (swaps s) of
              Some _ \<Rightarrow>
                (Inl (400, ''You already have a pending or accepted request with this user''), s)
            | None \<Rightarrow>
                (let swapRequest =
                       new_swap new_id (user_id req_user) (ObjectId receiverId) so sw msg
                 in if index_conflict swapRequest (swaps s)
                    then (Inl (500, ''Server error creating swap request''), s)
                    else (Inr swapRequest, s\<lparr>swaps := swaps s @ [swapRequest]\<rparr>))))"

text \<open>PUT /api/swaps/:id/accept and PUT /api/swaps/:id/reject.\<close>

definition accept :: "user \<Rightarrow> oid \<Rightarrow> date \<Rightarrow> store \<Rightarrow> (failure + swap_request) \<times> store" where
  "accept req_user i now s =
     (case findById_swap (swaps s) i of
        None \<Rightarrow> (Inl (404, ''Swap request not found''), s)
      | Some swapRequest \<Rightarrow>
          (case populate (users s) (receiver swapRequest) of
             None \<Rightarrow> (Inl (500, ''Server error accepting swap request''), s)
           | Some receiver_id \<Rightarrow>
               if receiver_id \<noteq> user_id req_user
                 then (Inl (403, ''Only the receiver can accept this request''), s)
               else if status swapRequest \<noteq> Pending
                 then (Inl (400, ''Request is not pending''), s)
               else (let (saved, rs) =
                           swap_save now swapRequest (swapRequest\<lparr>status := Accepted\<rparr>) (swaps s)
                     in (Inr saved, s\<lparr>swaps := rs\<rparr>))))"

definition reject :: "user \<Rightarrow> oid \<Rightarrow> date \<Rightarrow> store \<Rightarrow> (failure + swap_request) \<times> store" where
  "reject req_user i now s =
     (case findById_swap (swaps s) i of
        None \<Rightarrow> (Inl (404, ''Swap request not found''), s)
      | Some swapRequest \<Rightarrow>
          (case populate (users s) (receiver swapRequest) of
             None \<Rightarrow> (Inl (500, ''Server error rejecting swap request''), s)
           | Some receiver_id \<Rightarrow>
               if receiver_id \<noteq> user_id req_user
                 then (Inl (403, ''Only the receiver can reject this request''), s)
               else if status swapRequest \<noteq> Pending
                 then (Inl (400, ''Request is not pending''), s)
               else (let (saved, rs) =
                           swap_save now swapRequest (swapRequest\<lparr>status := Rejected\<rparr>) (swaps s)
                     in (Inr saved, s\<lparr>swaps := rs\<rparr>))))"

text \<open>
  PUT /api/swaps/:id/complete. Both parties are populated. The test \<open>isInvolved\<close> reads
  \<open>requester._id\<close> first and \<open>receiver._id\<close> only when the requester is not the caller;
  the choice of \<open>otherUserId\<close> reads \<open>requester._id\<close> again and then one of the two ids.
  Each read throws on \<open>null\<close>, and the handler's \<open>catch\<close> answers 500 with whatever has
  been saved by then.
\<close>

definition complete :: "user \<Rightarrow> oid \<Rightarrow> int \<Rightarrow> string option \<Rightarrow> date \<Rightarrow> store
    \<Rightarrow> (failure + swap_request) \<times> store" where
  "complete req_user i rt fb now s =
     (if \<not> valid_complete_body rt fb then (Inl (400, ''Validation failed''), s)
      else case findById_swap (swaps s) i of
        None \<Rightarrow> (Inl (404, ''Swap request not found''), s)
      | Some swapRequest \<Rightarrow>
          (case populate (users s) (requester swapRequest) of
             None \<Rightarrow> (Inl (500, ''Server error completing swap request''), s)
           | Some requester_id \<Rightarrow>
               (let receiver_pop = populate (users s) (receiver swapRequest) in
                if requester_id \<noteq> user_id req_user \<and> receiver_pop = None
                  then (Inl (500, ''Server error completing swap request''), s)
                else if requester_id \<noteq> user_id req_user \<and> receiver_pop \<noteq> Some (user_id req_user)
                  then (Inl (403, ''Access denied''), s)
                else if status swapRequest \<noteq> Accepted
                  then (Inl (400, ''Request must be accepted before completion''), s)
                else
                  (let (saved, rs) =
                         swap_save now swapRequest
                           (swapRequest\<lparr>status := Completed, req_rating := Some rt, feedback := fb\<rparr>)
                           (swaps s);
                       s1 = s\<lparr>swaps := rs\<rparr>
                   in case (if requester_id = user_id req_user then receiver_pop
                            else Some requester_id) of
                        None \<Rightarrow> (Inl (500, ''Server error completing swap request''), s1)
                      | Some otherUserId \<Rightarrow>
                          (case findById_user (users s1) otherUserId of
                             None \<Rightarrow> (Inr saved, s1)
                           | Some otherUser \<Rightarrow>
                               (case updateRating otherUser rt (users s1) of
                                  None \<Rightarrow> (Inl (500, ''Server error completing swap request''), s1)
                                | Some us \<Rightarrow> (Inr saved, s1\<lparr>users := us\<rparr>)))))))"

text \<open>DELETE /api/swaps/:id.\<close>

definition delete_swap :: "user \<Rightarrow> oid \<Rightarrow> store \<Rightarrow> (failure + unit) \<times> store" where
  "delete_swap req_user i s =
     (case findById_swap (swaps s) i of
        None \<Rightarrow> (Inl (404, ''Swap request not found''), s)
      | Some swapRequest \<Rightarrow>
          if requester swapRequest \<noteq> user_id req_user
            then (Inl (403, ''Only the requester can cancel this request''), s)
          else if status swapRequest = Completed
            then (Inl (400, ''Cannot cancel completed swap''), s)
          else (Inr (), s\<lparr>swaps := findByIdAndDelete i (swaps s)\<rparr>))"

section \<open>Moderation (admin routes)\<close>

text \<open>PUT /api/admin/users/:id/ban and PUT /api/admin/users/:id/unban.\<close>

definition ban :: "oid \<Rightarrow> store \<Rightarrow> (failure + user) \<times> store" where
  "ban i s =
     (case findById_user (users s) i of
        None \<Rightarrow> (Inl (404, ''User not found''), s)
      | Some u \<Rightarrow>
          if isAdmin u then (Inl (400, ''Cannot ban admin users''), s)
          else if isBanned u then (Inl (400, ''User is already banned''), s)
          else (let u' = u\<lparr>isBanned := True, isPublic := False\<rparr>
                in case user_save u' (users s) of
                     None \<Rightarrow> (Inl (500, ''Server error banning user''), s)
                   | Some us \<Rightarrow>
                       (Inr u',
                        s\<lparr>users := us,
                          swaps := updateMany
                            (\<lambda>r. (requester r = i \<or> receiver r = i) \<and> status r = Pending)
                            (\<lambda>r. r\<lparr>status := Cancelled\<rparr>) (swaps s)\<rparr>)))"

definition unban :: "oid \<Rightarrow> store \<Rightarrow> (failure + user) \<times> store" where
  "unban i s =
     (case findById_user (users s) i of
        None \<Rightarrow> (Inl (404, ''User not found''), s)
      | Some u \<Rightarrow>
          if \<not> isBanned u then (Inl (400, ''User is not banned''), s)
          else (let u' = u\<lparr>isBanned := False, isPublic := True\<rparr>
                in case user_save u' (users s) of
                     None \<Rightarrow> (Inl (500, ''Server error unbanning user''), s)
                   | Some us \<Rightarrow> (Inr u', s\<lparr>users := us\<rparr>)))"

section \<open>The operations as one transition function\<close>

datatype op =
    Create user string string string "string option" oid
  | Accept user oid date
  | Reject user oid date
  | Complete user oid int "string option" date
  | Delete user oid
  | Ban oid
  | Unban oid

fun exec :: "op \<Rightarrow> store \<Rightarrow> store" where
  "exec (Create u rc so sw msg new_id) s = snd (create u rc so sw msg new_id s)"
| "exec (Accept u i now) s = snd (accept u i now s)"
| "exec (Reject u i now) s = snd (reject u i now s)"
| "exec (Complete u i rt fb now) s = snd (complete u i rt fb now s)"
| "exec (Delete u i) s = snd (delete_swap u i s)"
| "exec (Ban i) s = snd (ban i s)"
| "exec (Unban i) s = snd (unban i s)"

section \<open>Notions of the specification\<close>

text \<open>Rounding to one decimal, a tie going away from zero.\<close>

definition round_half_away :: "rat \<Rightarrow> rat" where
  "round_half_away x = sgn x * of_int \<lfloor>\<bar>x\<bar> * 10 + 1 / 2\<rfloor> / 10"


definition rating_state :: "user \<Rightarrow> rat \<times> nat \<times> int" where
  "rating_state u = (rating u, totalRatings u, ratingSum u)"

text \<open>The edges of the status machine.\<close>

definition edge :: "status \<Rightarrow> status \<Rightarrow> bool" where
  "edge a b \<longleftrightarrow>
     (a = Pending \<and> (b = Accepted \<or> b = Rejected \<or> b = Cancelled)) \<or>
     (a = Accepted \<and> (b = Completed \<or> b = Cancelled))"

text \<open>
  A timestamp field between a request \<open>r\<close> and its later version \<open>r'\<close>: once set it
  keeps its value, it becomes set only when the status \<open>st\<close> is entered, and entering
  \<open>st\<close> leaves it set.
\<close>

definition stamped_once :: "status \<Rightarrow> swap_request \<Rightarrow> swap_request
    \<Rightarrow> (swap_request \<Rightarrow> date option) \<Rightarrow> bool" where
  "stamped_once st r r' field \<longleftrightarrow>
     (field r \<noteq> None \<longrightarrow> field r' = field r) \<and>
     (field r = None \<and> field r' \<noteq> None \<longrightarrow> status r \<noteq> st \<and> status r' = st) \<and>
     (status r \<noteq> st \<and> status r' = st \<longrightarrow> field r' \<noteq> None)"

definition evolves :: "swap_request \<Rightarrow> swap_request \<Rightarrow> bool" where
  "evolves r r' \<longleftrightarrow>
     (status r' = status r \<or> edge (status r) (status r')) \<and>
     stamped_once Accepted r r' acceptedAt \<and>
     stamped_once Rejected r r' rejectedAt \<and>
     stamped_once Completed r r' completedAt"

section \<open>Example stores\<close>

definition alice :: user where
  "alice = \<lparr>user_id = 1, skillsOffered = [''Cooking'', ''Painting''], isPublic = True,
     isAdmin = False, isBanned = False, rating = 5, totalRatings = 0, ratingSum = 0\<rparr>"

definition bob :: user where
  "bob = \<lparr>user_id = 2, skillsOffered = [''Guitar'', ''Piano''], isPublic = True,
     isAdmin = False, isBanned = False, rating = 9 / 2, totalRatings = 2, ratingSum = 9\<rparr>"

definition carol :: user where
  "carol = \<lparr>user_id = 3, skillsOffered = [''Chess''], isPublic = False,
     isAdmin = False, isBanned = False, rating = 5, totalRatings = 0, ratingSum = 0\<rparr>"

definition pending_ab :: swap_request where
  "pending_ab = new_swap 7 1 2 ''Cooking'' ''Guitar'' None"

definition accepted_ab :: swap_request where
  "accepted_ab = pending_ab\<lparr>status := Accepted, acceptedAt := Some 50\<rparr>"

definition store_pending :: store where
  "store_pending = \<lparr>users = [alice, bob, carol], swaps = [pending_ab]\<rparr>"

definition store_accepted :: store where
  "store_accepted = \<lparr>users = [alice, bob, carol], swaps = [accepted_ab]\<rparr>"

definition store_dangling :: store where
  "store_dangling = \<lparr>users = [alice], swaps = [accepted_ab]\<rparr>"

definition accepted_ba :: swap_request where
  "accepted_ba =
     (new_swap 9 2 1 ''Guitar'' ''Cooking'' None)\<lparr>status := Accepted, acceptedAt := Some 40\<rparr>"

definition store_reverse :: store where
  "store_reverse = \<lparr>users = [alice, bob, carol], swaps = [accepted_ba]\<rparr>"

text \<open>Dave's id has a letter among its digits, so it has two spellings.\<close>

definition dave :: user where
  "dave = \<lparr>user_id = 10, skillsOffered = [''Chess'', ''Go''], isPublic = True,
     isAdmin = False, isBanned = False, rating = 5, totalRatings = 0, ratingSum = 0\<rparr>"

definition alice_hex :: string where "alice_hex = ''000000000000000000000001''"
definition bob_hex :: string where "bob_hex = ''000000000000000000000002''"
definition carol_hex :: string where "carol_hex = ''000000000000000000000003''"
definition dave_hex :: string where "dave_hex = ''00000000000000000000000a''"
definition dave_upper :: string where "dave_upper = ''00000000000000000000000A''"

definition store_dave :: store where
  "store_dave = \<lparr>users = [dave], swaps = []\<rparr>"


definition store_orphan :: store where
  "store_orphan = \<lparr>users = [bob], swaps = [accepted_ab]\<rparr>"

definition store_mixed :: store where
  "store_mixed = \<lparr>users = [alice, bob, carol], swaps = [pending_ab, accepted_ba]\<rparr>"

section \<open>Collections: lookups after an update\<close>

lemma hex_val_hex_char: "d < 16 \<Longrightarrow> hex_val (hex_char d) = Some d"
proof -
  have "\<forall>d \<in> set [0..<16]. hex_val (hex_char d) = Some d"
    by code_simp
  then show "d < 16 \<Longrightarrow> hex_val (hex_char d) = Some d" by simp
qed

lemma ObjectId_snoc:
  "ObjectId (str @ [c]) = 16 * ObjectId str + (case hex_val c of Some d \<Rightarrow> d | None \<Rightarrow> 0)"
  by (simp add: ObjectId_def)

lemma ObjectId_hex_string: "ObjectId (hex_string n i) = i mod 16 ^ n"
proof (induction n arbitrary: i)
  case 0
  show ?case by (simp add: ObjectId_def)
next
  case (Suc n)
  have "ObjectId (hex_string (Suc n) i) = 16 * (i div 16 mod 16 ^ n) + i mod 16"
    by (simp add: ObjectId_snoc Suc hex_val_hex_char)
  also have "\<dots> = i mod (16 * 16 ^ n)" by (simp add: mod_mult2_eq)
  finally show ?case by simp
qed

text \<open>Casting the printed form of an ObjectId gives the ObjectId back.\<close>

lemma ObjectId_toString: "i < 16 ^ 24 \<Longrightarrow> ObjectId (toString i) = i"
  by (simp add: toString_def ObjectId_hex_string)

lemma findById_swap_replace:
  "swap_id d = k \<Longrightarrow>
   findById_swap (map (\<lambda>x. if swap_id x = k then d else x) rs) i =
     (if i = k then map_option (\<lambda>_. d) (findById_swap rs i) else findById_swap rs i)"
  unfolding findById_swap_def by (induction rs) auto

lemma findById_user_replace:
  "user_id d = k \<Longrightarrow>
   findById_user (map (\<lambda>x. if user_id x = k then d else x) us) i =
     (if i = k then map_option (\<lambda>_. d) (findById_user us i) else findById_user us i)"
  unfolding findById_user_def by (induction us) auto

lemma findById_swap_updateMany:
  assumes "\<And>r. swap_id (upd r) = swap_id r"
  shows "findById_swap (updateMany flt upd rs) i =
     map_option (\<lambda>r. if flt r then upd r else r) (findById_swap rs i)"
  unfolding findById_swap_def updateMany_def using assms by (induction rs) auto

lemma findById_swap_id: "findById_swap rs i = Some r \<Longrightarrow> swap_id r = i"
  unfolding findById_swap_def by (induction rs) (auto split: if_splits)

lemma findById_user_id: "findById_user us i = Some u \<Longrightarrow> user_id u = i"
  unfolding findById_user_def by (induction us) (auto split: if_splits)

lemma pre_save_id [simp]: "swap_id (pre_save now old this) = swap_id this"
  by (simp add: pre_save_def split: status.splits)

lemma Math_round_pos:
  assumes "1 \<le> (of_int (Math_round (x * 10)) / 10 :: rat)"
  shows "of_int (Math_round (x * 10)) / 10 = round_half_away x"
proof -
  have "(10::rat) \<le> of_int (Math_round (x * 10))" using assms by simp
  then have "10 \<le> Math_round (x * 10)" by linarith
  then have "10 \<le> x * 10 + 1 / 2" unfolding Math_round_def by linarith
  then have "0 < x" by linarith
  then show ?thesis by (simp add: round_half_away_def Math_round_def)
qed

section \<open>What each operation does to the swap requests\<close>

lemma evolves_refl: "evolves r r"
  by (auto simp: evolves_def stamped_once_def)

lemma accept_evolves:
  assumes "findById_swap (swaps s) j = Some r"
      and "findById_swap (swaps (snd (accept u i now s))) j = Some r'"
  shows "evolves r r'"
proof (cases "fst (accept u i now s)")
  case (Inl e)
  then have "snd (accept u i now s) = s"
    by (auto simp: accept_def split: option.splits if_splits prod.splits)
  with assms show ?thesis by (simp add: evolves_refl)
next
  case (Inr d)
  then obtain r0 where r0: "findById_swap (swaps s) i = Some r0" "status r0 = Pending"
    and s': "swaps (snd (accept u i now s)) =
               snd (swap_save now r0 (r0\<lparr>status := Accepted\<rparr>) (swaps s))"
    by (auto simp: accept_def split: option.splits if_splits prod.splits)
  have id0: "swap_id r0 = i" using r0(1) by (rule findById_swap_id)
  show ?thesis
  proof (cases "j = i")
    case True
    with assms r0 s' id0 have "r = r0" "r' = pre_save now r0 (r0\<lparr>status := Accepted\<rparr>)"
      by (auto simp: swap_save_def Let_def findById_swap_replace)
    with r0(2) show ?thesis
      by (auto simp: evolves_def stamped_once_def edge_def pre_save_def)
  next
    case False
    with assms s' id0 have "r' = r"
      by (auto simp: swap_save_def Let_def findById_swap_replace)
    then show ?thesis by (simp add: evolves_refl)
  qed
qed

lemma reject_evolves:
  assumes "findById_swap (swaps s) j = Some r"
      and "findById_swap (swaps (snd (reject u i now s))) j = Some r'"
  shows "evolves r r'"
proof (cases "fst (reject u i now s)")
  case (Inl e)
  then have "snd (reject u i now s) = s"
    by (auto simp: reject_def split: option.splits if_splits prod.splits)
  with assms show ?thesis by (simp add: evolves_refl)
next
  case (Inr d)
  then obtain r0 where r0: "findById_swap (swaps s) i = Some r0" "status r0 = Pending"
    and s': "swaps (snd (reject u i now s)) =
               snd (swap_save now r0 (r0\<lparr>status := Rejected\<rparr>) (swaps s))"
    by (auto simp: reject_def split: option.splits if_splits prod.splits)
  have id0: "swap_id r0 = i" using r0(1) by (rule findById_swap_id)
  show ?thesis
  proof (cases "j = i")
    case True
    with assms r0 s' id0 have "r = r0" "r' = pre_save now r0 (r0\<lparr>status := Rejected\<rparr>)"
      by (auto simp: swap_save_def Let_def findById_swap_replace)
    with r0(2) show ?thesis
      by (auto simp: evolves_def stamped_once_def edge_def pre_save_def)
  next
    case False
    with assms s' id0 have "r' = r"
      by (auto simp: swap_save_def Let_def findById_swap_replace)
    then show ?thesis by (simp add: evolves_refl)
  qed
qed

text \<open>What Complete does to the swaps collection: nothing, or one save.\<close>

lemma complete_swaps:
  "swaps (snd (complete u i rt fb now s)) = swaps s \<or>
   (\<exists>r0. findById_swap (swaps s) i = Some r0 \<and> status r0 = Accepted \<and>
      swaps (snd (complete u i rt fb now s)) =
        snd (swap_save now r0 (r0\<lparr>status := Completed, req_rating := Some rt, feedback := fb\<rparr>)
               (swaps s)))"
  by (auto simp: complete_def Let_def split: option.splits if_splits prod.splits)

lemma complete_evolves:
  assumes "findById_swap (swaps s) j = Some r"
      and "findById_swap (swaps (snd (complete u i rt fb now s))) j = Some r'"
  shows "evolves r r'"
  using complete_swaps [of u i rt fb now s]
proof (elim disjE exE conjE)
  assume "swaps (snd (complete u i rt fb now s)) = swaps s"
  with assms show ?thesis by (simp add: evolves_refl)
next
  fix r0
  assume r0: "findById_swap (swaps s) i = Some r0" "status r0 = Accepted"
    and s': "swaps (snd (complete u i rt fb now s)) =
        snd (swap_save now r0 (r0\<lparr>status := Completed, req_rating := Some rt, feedback := fb\<rparr>)
               (swaps s))"
  have id0: "swap_id r0 = i" using r0(1) by (rule findById_swap_id)
  show ?thesis
  proof (cases "j = i")
    case True
    with assms r0 s' id0 have "r = r0"
      "r' = pre_save now r0 (r0\<lparr>status := Completed, req_rating := Some rt, feedback := fb\<rparr>)"
      by (auto simp: swap_save_def Let_def findById_swap_replace)
    with r0(2) show ?thesis
      by (auto simp: evolves_def stamped_once_def edge_def pre_save_def)
  next
    case False
    with assms s' id0 have "r' = r"
      by (auto simp: swap_save_def Let_def findById_swap_replace)
    then show ?thesis by (simp add: evolves_refl)
  qed
qed

lemma findById_swap_append:
  "findById_swap (rs @ [d]) j =
     (case findById_swap rs j of Some r \<Rightarrow> Some r
      | None \<Rightarrow> if swap_id d = j then Some d else None)"
  unfolding findById_swap_def by (induction rs) auto

lemma create_evolves:
  assumes "findById_swap (swaps s) j = Some r"
      and "findById_swap (swaps (snd (create u rc so sw msg k s))) j = Some r'"
  shows "evolves r r'"
proof -
  have "swaps (snd (create u rc so sw msg k s)) = swaps s \<or>
        (\<exists>d. swaps (snd (create u rc so sw msg k s)) = swaps s @ [d])"
    by (auto simp: create_def Let_def split: option.splits if_splits)
  with assms have "r' = r" by (auto simp: findById_swap_append)
  then show ?thesis by (simp add: evolves_refl)
qed

lemma findById_swap_filter:
  "findById_swap (findByIdAndDelete i rs) j = (if j = i then None else findById_swap rs j)"
  unfolding findById_swap_def findByIdAndDelete_def by (induction rs) auto

lemma delete_evolves:
  assumes "findById_swap (swaps s) j = Some r"
      and "findById_swap (swaps (snd (delete_swap u i s))) j = Some r'"
  shows "evolves r r'"
proof -
  have "swaps (snd (delete_swap u i s)) = swaps s \<or>
        swaps (snd (delete_swap u i s)) = findByIdAndDelete i (swaps s)"
    by (auto simp: delete_swap_def split: option.splits if_splits)
  with assms have "r' = r" by (auto simp: findById_swap_filter split: if_splits)
  then show ?thesis by (simp add: evolves_refl)
qed

lemma ban_swaps:
  "swaps (snd (ban i s)) = swaps s \<or>
   swaps (snd (ban i s)) =
     updateMany (\<lambda>r. (requester r = i \<or> receiver r = i) \<and> status r = Pending)
       (\<lambda>r. r\<lparr>status := Cancelled\<rparr>) (swaps s)"
  by (auto simp: ban_def Let_def split: option.splits if_splits)

lemma ban_evolves:
  assumes "findById_swap (swaps s) j = Some r"
      and "findById_swap (swaps (snd (ban i s))) j = Some r'"
  shows "evolves r r'"
  using ban_swaps [of i s]
proof
  assume "swaps (snd (ban i s)) = swaps s"
  with assms show ?thesis by (simp add: evolves_refl)
next
  assume "swaps (snd (ban i s)) =
     updateMany (\<lambda>r. (requester r = i \<or> receiver r = i) \<and> status r = Pending)
       (\<lambda>r. r\<lparr>status := Cancelled\<rparr>) (swaps s)"
  with assms have "r' = (if (requester r = i \<or> receiver r = i) \<and> status r = Pending
                         then r\<lparr>status := Cancelled\<rparr> else r)"
    by (simp add: findById_swap_updateMany)
  then show ?thesis by (auto simp: evolves_def stamped_once_def edge_def)
qed

lemma unban_swaps: "swaps (snd (unban i s)) = swaps s"
  by (auto simp: unban_def Let_def split: option.splits if_splits)

lemma exec_evolves:
  assumes "findById_swap (swaps s) j = Some r"
      and "findById_swap (swaps (exec opn s)) j = Some r'"
  shows "evolves r r'"
proof (cases opn)
  case (Create u rc so sw msg k)
  with assms show ?thesis by (auto intro: create_evolves)
next
  case (Accept u i now)
  with assms show ?thesis by (auto intro: accept_evolves)
next
  case (Reject u i now)
  with assms show ?thesis by (auto intro: reject_evolves)
next
  case (Complete u i rt fb now)
  with assms show ?thesis by (auto intro: complete_evolves)
next
  case (Delete u i)
  with assms show ?thesis by (auto intro: delete_evolves)
next
  case (Ban i)
  with assms show ?thesis by (auto intro: ban_evolves)
next
  case (Unban i)
  with assms show ?thesis by (simp add: unban_swaps evolves_refl)
qed

lemma populate_eq: "populate us k = (if findById_user us k = None then None else Some k)"
  by (auto simp: populate_def dest: findById_user_id)

lemma exec_fresh:
  assumes "findById_swap (swaps s) j = None"
      and "findById_swap (swaps (exec opn s)) j = Some r'"
  shows "status r' = Pending"
proof (cases opn)
  case (Create u rc so sw msg k)
  have "swaps (snd (create u rc so sw msg k s)) = swaps s \<or>
        swaps (snd (create u rc so sw msg k s)) =
          swaps s @ [new_swap k (user_id u) (ObjectId rc) so sw msg]"
    by (auto simp: create_def Let_def split: option.splits if_splits)
  with assms Create show ?thesis
    by (auto simp: findById_swap_append new_swap_def split: if_splits)
next
  case (Accept u i now)
  with assms show ?thesis
    by (auto simp: accept_def swap_save_def Let_def findById_swap_replace
        split: option.splits if_splits prod.splits)
next
  case (Reject u i now)
  with assms show ?thesis
    by (auto simp: reject_def swap_save_def Let_def findById_swap_replace
        split: option.splits if_splits prod.splits)
next
  case (Complete u i rt fb now)
  with assms complete_swaps [of u i rt fb now s] show ?thesis
    by (auto simp: swap_save_def Let_def findById_swap_replace split: if_splits)
next
  case (Delete u i)
  with assms show ?thesis
    by (auto simp: delete_swap_def findById_swap_filter split: option.splits if_splits)
next
  case (Ban i)
  with assms ban_swaps [of i s] show ?thesis
    by (auto simp: findById_swap_updateMany)
next
  case (Unban i)
  with assms show ?thesis by (simp add: unban_swaps)
qed

section \<open>What each operation does to the users\<close>

lemma updateRating_result:
  assumes "updateRating this nr us = Some us'"
  shows "us' = map (\<lambda>x. if user_id x = user_id this
              then this\<lparr>ratingSum := ratingSum this + nr, totalRatings := totalRatings this + 1,
                rating := round_half_away (of_int (ratingSum this + nr) / of_nat (totalRatings this + 1))\<rparr>
              else x) us"
proof -
  let ?x = "(of_int (ratingSum this + nr) / of_nat (totalRatings this + 1)) :: rat"
  let ?r = "of_int (Math_round (?x * 10)) / 10 :: rat"
  from assms have v: "1 \<le> ?r"
    and us': "us' = map (\<lambda>x. if user_id x = user_id this
              then this\<lparr>ratingSum := ratingSum this + nr, totalRatings := totalRatings this + 1,
                rating := ?r\<rparr> else x) us"
    by (auto simp: updateRating_def user_save_def validate_user_def Let_def split: if_splits)
  from v have "?r = round_half_away ?x" by (rule Math_round_pos)
  with us' show ?thesis by simp
qed















section \<open>Evaluation of the examples\<close>

lemmas example_defs = alice_def bob_def carol_def pending_ab_def accepted_ab_def
  store_pending_def store_accepted_def store_dangling_def accepted_ba_def store_reverse_def
  store_orphan_def store_mixed_def new_swap_def dave_def store_dave_def

lemmas op_defs = create_def accept_def reject_def complete_def delete_swap_def ban_def unban_def
  findById_user_def findById_swap_def populate_def user_save_def validate_user_def
  swap_save_def pre_save_def updateRating_def Math_round_def updateMany_def
  findByIdAndDelete_def index_conflict_def is_open_def existingRequest_def
  valid_create_body_def valid_complete_body_def

lemma floor_numeral_div:
  "\<lfloor>(numeral a :: rat) / numeral b\<rfloor> = numeral a div numeral b"
  using floor_divide_of_int_eq [of "numeral a" "numeral b", where ?'a = rat] by simp

lemmas eval_simps = op_defs example_defs Let_def floor_numeral_div round_half_away_def

section \<open>The status machine and its timestamps\<close>

text \<open>
  C9. Whatever operation runs (Create, Accept, Reject, Complete, Delete, Ban with its
  cascade, Unban), a swap request that is in the store before and after either keeps its
  status or moves along one of the edges pending to accepted, rejected or cancelled and
  accepted to completed or cancelled; in particular nothing leaves rejected, completed or
  cancelled, no state is skipped and no edge is reversed. A request that appears in the
  store starts as pending.
\<close>

theorem status_moves_along_edges:
  "(findById_swap (swaps s) j = Some r \<and> findById_swap (swaps (exec opn s)) j = Some r'
      \<longrightarrow> status r' = status r \<or> edge (status r) (status r')) \<and>
   (findById_swap (swaps s) k = None \<and> findById_swap (swaps (exec opn' s)) k = Some q
      \<longrightarrow> status q = Pending)"
  using exec_evolves [of s j r opn r'] exec_fresh [of s k opn' q]
  by (auto simp: evolves_def)

theorem status_moves_along_edges_witness:
  "findById_swap (swaps store_pending) 7 = Some pending_ab \<and>
   findById_swap (swaps (exec (Accept bob 7 60) store_pending)) 7 =
     Some (pending_ab\<lparr>status := Accepted, acceptedAt := Some 60\<rparr>) \<and>
   edge Pending Accepted \<and>
   findById_swap (swaps store_pending) 8 = None \<and>
   findById_swap (swaps (exec (Create carol bob_hex ''Chess'' ''Guitar'' None 8) store_pending)) 8 =
     Some (new_swap 8 3 2 ''Chess'' ''Guitar'' None) \<and>
   status (new_swap 8 3 2 ''Chess'' ''Guitar'' None) = Pending"
proof -
  have a: "findById_swap (swaps store_pending) 7 = Some pending_ab"
    by (simp add: eval_simps)
  have b: "findById_swap (swaps (exec (Accept bob 7 60) store_pending)) 7 =
     Some (pending_ab\<lparr>status := Accepted, acceptedAt := Some 60\<rparr>)"
    by (simp add: eval_simps)
  have c: "findById_swap (swaps store_pending) 8 = None"
    by (simp add: eval_simps)
  have d: "findById_swap (swaps (exec (Create carol bob_hex ''Chess'' ''Guitar'' None 8) store_pending)) 8 =
     Some (new_swap 8 3 2 ''Chess'' ''Guitar'' None)"
    by code_simp
  from status_moves_along_edges [of store_pending 7 pending_ab "Accept bob 7 60"
      "pending_ab\<lparr>status := Accepted, acceptedAt := Some 60\<rparr>" 8
      "Create carol bob_hex ''Chess'' ''Guitar'' None 8" "new_swap 8 3 2 ''Chess'' ''Guitar'' None"]
    a b c d
  show ?thesis by (simp add: pending_ab_def new_swap_def)
qed

text \<open>
  C7. A second Accept by the receiver on a request that is already accepted answers
  400 "Request is not pending" and leaves the store as it is, so \<open>acceptedAt\<close> is not
  stamped again. Across every operation each of \<open>acceptedAt\<close>, \<open>rejectedAt\<close> and
  \<open>completedAt\<close> keeps its value once set, becomes set only when its status is entered,
  and is set whenever its status is entered.
\<close>

theorem accept_twice_and_timestamps:
  "(findById_swap (swaps s) i = Some r \<and> status r = Accepted \<and> user_id u = receiver r \<and>
      findById_user (users s) (receiver r) \<noteq> None
      \<longrightarrow> accept u i now s = (Inl (400, ''Request is not pending''), s)) \<and>
   (findById_swap (swaps s) j = Some q \<and> findById_swap (swaps (exec opn s)) j = Some q'
      \<longrightarrow> stamped_once Accepted q q' acceptedAt \<and> stamped_once Rejected q q' rejectedAt \<and>
          stamped_once Completed q q' completedAt)"
  using exec_evolves [of s j q opn q']
  by (auto simp: evolves_def accept_def populate_eq)

theorem accept_twice_and_timestamps_witness:
  "findById_swap (swaps store_accepted) 7 = Some accepted_ab \<and> status accepted_ab = Accepted \<and>
   user_id bob = receiver accepted_ab \<and>
   findById_user (users store_accepted) (receiver accepted_ab) \<noteq> None \<and>
   accept bob 7 60 store_accepted = (Inl (400, ''Request is not pending''), store_accepted) \<and>
   findById_swap (swaps (exec (Complete alice 7 5 None 100) store_accepted)) 7 =
     Some (accepted_ab\<lparr>status := Completed, req_rating := Some 5, completedAt := Some 100\<rparr>) \<and>
   stamped_once Accepted accepted_ab
     (accepted_ab\<lparr>status := Completed, req_rating := Some 5, completedAt := Some 100\<rparr>) acceptedAt \<and>
   stamped_once Completed accepted_ab
     (accepted_ab\<lparr>status := Completed, req_rating := Some 5, completedAt := Some 100\<rparr>) completedAt"
proof -
  have a: "findById_swap (swaps store_accepted) 7 = Some accepted_ab"
    by (simp add: eval_simps)
  have b: "status accepted_ab = Accepted" "user_id bob = receiver accepted_ab"
    "findById_user (users store_accepted) (receiver accepted_ab) \<noteq> None"
    by (simp_all add: eval_simps)
  have c: "findById_swap (swaps (exec (Complete alice 7 5 None 100) store_accepted)) 7 =
     Some (accepted_ab\<lparr>status := Completed, req_rating := Some 5, completedAt := Some 100\<rparr>)"
    by (simp add: eval_simps)
  from accept_twice_and_timestamps [of store_accepted 7 accepted_ab bob 60 7 accepted_ab
      "Complete alice 7 5 None 100"
      "accepted_ab\<lparr>status := Completed, req_rating := Some 5, completedAt := Some 100\<rparr>"]
    a b c
  show ?thesis by simp
qed

section \<open>Moderation\<close>

text \<open>
  C10. Banning a user who is neither an admin nor banned sets \<open>isBanned\<close> and clears
  \<open>isPublic\<close>; unbanning sets \<open>isPublic\<close> to true whatever it was before the ban. A
  user who was private before the ban is public after Ban followed by Unban.
\<close>

theorem ban_unban_public:
  assumes "findById_user (users s) i = Some u" and "\<not> isAdmin u" and "\<not> isBanned u"
      and "validate_user u"
  shows "fst (ban i s) = Inr (u\<lparr>isBanned := True, isPublic := False\<rparr>) \<and>
         findById_user (users (snd (ban i s))) i = Some (u\<lparr>isBanned := True, isPublic := False\<rparr>) \<and>
         fst (unban i (snd (ban i s))) = Inr (u\<lparr>isBanned := False, isPublic := True\<rparr>) \<and>
         findById_user (users (snd (unban i (snd (ban i s))))) i =
           Some (u\<lparr>isBanned := False, isPublic := True\<rparr>)"
proof -
  have id: "user_id u = i" using assms(1) by (rule findById_user_id)
  let ?b = "u\<lparr>isBanned := True, isPublic := False\<rparr>"
  let ?us1 = "map (\<lambda>x. if user_id x = i then ?b else x) (users s)"
  have v: "validate_user ?b" using assms(4) by (simp add: validate_user_def)
  have b: "ban i s = (Inr ?b, s\<lparr>users := ?us1,
      swaps := updateMany (\<lambda>r. (requester r = i \<or> receiver r = i) \<and> status r = Pending)
                 (\<lambda>r. r\<lparr>status := Cancelled\<rparr>) (swaps s)\<rparr>)"
    using assms v id by (simp add: ban_def user_save_def Let_def)
  have f1: "findById_user ?us1 i = Some ?b"
    using assms(1) id by (simp add: findById_user_replace)
  let ?p = "u\<lparr>isBanned := False, isPublic := True\<rparr>"
  have v2: "validate_user (?b\<lparr>isBanned := False, isPublic := True\<rparr>)"
    using assms(4) by (simp add: validate_user_def)
  have ub: "unban i (snd (ban i s)) =
      (Inr ?p, (snd (ban i s))\<lparr>users := map (\<lambda>x. if user_id x = i then ?p else x) ?us1\<rparr>)"
    using f1 v2 id by (simp add: b unban_def user_save_def Let_def)
  have idp: "user_id ?p = i" using id by simp
  have f2: "findById_user (map (\<lambda>x. if user_id x = i then ?p else x) ?us1) i = Some ?p"
    unfolding findById_user_replace [OF idp] using f1 by simp
  show ?thesis using b f1 ub f2 by simp
qed

theorem ban_unban_public_witness:
  "findById_user (users store_pending) 3 = Some carol \<and> \<not> isAdmin carol \<and> \<not> isBanned carol \<and>
   validate_user carol \<and> \<not> isPublic carol \<and>
   findById_user (users (snd (unban 3 (snd (ban 3 store_pending))))) 3 =
     Some (carol\<lparr>isBanned := False, isPublic := True\<rparr>)"
proof -
  have a: "findById_user (users store_pending) 3 = Some carol"
    by (simp add: eval_simps)
  have b: "\<not> isAdmin carol" "\<not> isBanned carol" "validate_user carol" "\<not> isPublic carol"
    by (simp_all add: eval_simps)
  from ban_unban_public [OF a b(1) b(2) b(3)] a b show ?thesis by simp
qed

section \<open>The rating invariant\<close>







section \<open>Creating a swap request\<close>

lemma existingRequest_None:
  "existingRequest rq rc rs = None \<longleftrightarrow>
     \<not> (\<exists>x \<in> set rs. requester x = rq \<and> receiver x = rc \<and> is_open (status x))"
  by (auto simp: existingRequest_def find_None_iff is_open_def)

lemma index_conflict_new:
  assumes "\<not> (\<exists>x \<in> set rs. requester x = rq \<and> receiver x = rc \<and> is_open (status x))"
  shows "index_conflict (new_swap k rq rc so sw msg) rs \<longleftrightarrow> (\<exists>x \<in> set rs. swap_id x = k)"
  using assms by (auto simp: index_conflict_def new_swap_def)

text \<open>The decisions of Create, once the self-request test is known to have passed.\<close>

lemma create_after_self_test:
  assumes "valid_create_body rid so sw msg" and "toString (user_id u) \<noteq> rid"
  shows "create u rid so sw msg k s =
    (case findById_user (users s) (ObjectId rid) of
       None \<Rightarrow> (Inl (404, ''Receiver not found or unavailable''), s)
     | Some rcv \<Rightarrow>
         if isBanned rcv \<or> \<not> isPublic rcv
           then (Inl (404, ''Receiver not found or unavailable''), s)
         else if so \<notin> set (skillsOffered u)
           then (Inl (400, ''You do not have the offered skill in your profile''), s)
         else if sw \<notin> set (skillsOffered rcv)
           then (Inl (400, ''Receiver does not offer the requested skill''), s)
         else if \<exists>x \<in> set (swaps s). requester x = user_id u \<and> receiver x = ObjectId rid \<and>
                   is_open (status x)
           then (Inl (400, ''You already have a pending or accepted request with this user''), s)
         else if \<exists>x \<in> set (swaps s). swap_id x = k
           then (Inl (500, ''Server error creating swap request''), s)
         else (Inr (new_swap k (user_id u) (ObjectId rid) so sw msg),
               s\<lparr>swaps := swaps s @ [new_swap k (user_id u) (ObjectId rid) so sw msg]\<rparr>))"
proof (cases "existingRequest (user_id u) (ObjectId rid) (swaps s)")
  case None
  then have n: "\<not> (\<exists>x \<in> set (swaps s). requester x = user_id u \<and> receiver x = ObjectId rid \<and>
      is_open (status x))"
    by (simp add: existingRequest_None)
  show ?thesis
    using assms None n index_conflict_new [OF n, of k so sw msg]
    by (simp add: create_def Let_def split: option.splits)
next
  case (Some x)
  then have "existingRequest (user_id u) (ObjectId rid) (swaps s) \<noteq> None" by simp
  then have e: "\<exists>x \<in> set (swaps s). requester x = user_id u \<and> receiver x = ObjectId rid \<and>
      is_open (status x)"
    unfolding existingRequest_None by blast
  from e have c: "(\<exists>x \<in> set (swaps s). requester x = user_id u \<and> receiver x = ObjectId rid \<and>
      is_open (status x)) = True" by simp
  show ?thesis
    unfolding c using assms Some by (simp add: create_def split: option.splits)
qed

text \<open>
  C8 (amended). Take a Create call whose body passes validation, by a requester whose
  id is a 12-byte ObjectId, with a \<open>receiverId\<close> that, whenever it denotes the requester,
  is written as the server prints ids. The checks run in this order and the first
  failure decides the answer: the receiver exists, is not banned and is public (else
  404); the requester is not the receiver (else 400); the requester offers
  \<open>skillOffered\<close> (else 400); the receiver offers \<open>skillWanted\<close> (else 400); no pending or
  accepted request from the requester to the receiver exists, whatever its skills (else
  400 "You already have a pending or accepted request with this user"). When all hold and
  the new id is unused, a request with status pending is inserted.
\<close>

theorem create_checks_in_order:
  assumes "valid_create_body rid so sw msg"
      and "user_id u < 16 ^ 24"
      and "user_id u = ObjectId rid \<longrightarrow> rid = toString (user_id u)"
  shows "create u rid so sw msg k s =
    (case findById_user (users s) (ObjectId rid) of
       None \<Rightarrow> (Inl (404, ''Receiver not found or unavailable''), s)
     | Some rcv \<Rightarrow>
         if isBanned rcv \<or> \<not> isPublic rcv
           then (Inl (404, ''Receiver not found or unavailable''), s)
         else if user_id u = ObjectId rid
           then (Inl (400, ''Cannot send swap request to yourself''), s)
         else if so \<notin> set (skillsOffered u)
           then (Inl (400, ''You do not have the offered skill in your profile''), s)
         else if sw \<notin> set (skillsOffered rcv)
           then (Inl (400, ''Receiver does not offer the requested skill''), s)
         else if \<exists>x \<in> set (swaps s). requester x = user_id u \<and> receiver x = ObjectId rid \<and>
                   is_open (status x)
           then (Inl (400, ''You already have a pending or accepted request with this user''), s)
         else if \<exists>x \<in> set (swaps s). swap_id x = k
           then (Inl (500, ''Server error creating swap request''), s)
         else (Inr (new_swap k (user_id u) (ObjectId rid) so sw msg),
               s\<lparr>swaps := swaps s @ [new_swap k (user_id u) (ObjectId rid) so sw msg]\<rparr>))"
proof (cases "user_id u = ObjectId rid")
  case True
  with assms(3) have "toString (user_id u) = rid" by simp
  with assms(1) True show ?thesis
    by (simp add: create_def split: option.splits)
next
  case False
  have "toString (user_id u) \<noteq> rid"
  proof
    assume "toString (user_id u) = rid"
    then have "ObjectId rid = ObjectId (toString (user_id u))" by simp
    with ObjectId_toString [OF assms(2)] False show False by simp
  qed
  from create_after_self_test [OF assms(1) this] False show ?thesis
    by (simp split: option.splits)
qed

theorem create_checks_in_order_witness:
  "valid_create_body bob_hex ''Chess'' ''Guitar'' None \<and> user_id carol < 16 ^ 24 \<and>
   ObjectId bob_hex = 2 \<and> user_id carol \<noteq> 2 \<and>
   create carol bob_hex ''Chess'' ''Guitar'' None 8 store_pending =
     (Inr (new_swap 8 3 2 ''Chess'' ''Guitar'' None),
      store_pending\<lparr>swaps := [pending_ab, new_swap 8 3 2 ''Chess'' ''Guitar'' None]\<rparr>) \<and>
   valid_create_body dave_hex ''Chess'' ''Go'' None \<and> user_id dave < 16 ^ 24 \<and>
   ObjectId dave_hex = user_id dave \<and> dave_hex = toString (user_id dave) \<and>
   create dave dave_hex ''Chess'' ''Go'' None 11 store_dave =
     (Inl (400, ''Cannot send swap request to yourself''), store_dave)"
proof -
  have a: "valid_create_body bob_hex ''Chess'' ''Guitar'' None"
    "valid_create_body dave_hex ''Chess'' ''Go'' None"
    by code_simp+
  have r: "user_id carol < 16 ^ 24" "user_id dave < 16 ^ 24"
    by (simp_all add: carol_def dave_def)
  have o: "ObjectId bob_hex = 2" "ObjectId dave_hex = user_id dave"
    "dave_hex = toString (user_id dave)"
    by code_simp+
  have n: "user_id carol \<noteq> 2" by (simp add: carol_def)
  have h1: "user_id carol = ObjectId bob_hex \<longrightarrow> bob_hex = toString (user_id carol)"
    using o(1) n by simp
  have h2: "user_id dave = ObjectId dave_hex \<longrightarrow> dave_hex = toString (user_id dave)"
    by (rule impI) (rule o(3))
  have b: "findById_user (users store_pending) 2 = Some bob"
    "findById_user (users store_dave) (user_id dave) = Some dave"
    by (simp_all add: eval_simps)
  from create_checks_in_order [OF a(1) r(1) h1, of 8 store_pending] b(1) o(1)
  have 1: "create carol bob_hex ''Chess'' ''Guitar'' None 8 store_pending =
     (Inr (new_swap 8 3 2 ''Chess'' ''Guitar'' None),
      store_pending\<lparr>swaps := [pending_ab, new_swap 8 3 2 ''Chess'' ''Guitar'' None]\<rparr>)"
    by (simp add: eval_simps)
  from create_checks_in_order [OF a(2) r(2) h2, of 11 store_dave] b(2) o(2)
  have 2: "create dave dave_hex ''Chess'' ''Go'' None 11 store_dave =
     (Inl (400, ''Cannot send swap request to yourself''), store_dave)"
    by (simp add: dave_def)
  from a r o n 1 2 show ?thesis by blast
qed

text \<open>
  C8 as stated fails: the fifth check is not limited to requests with the same skills.
  Bob has an accepted request to Alice for (Guitar, Cooking); no open request for
  (Piano, Painting) exists and the four earlier checks pass, yet Create is refused.
\<close>

theorem create_checks_in_order_counterexample:
  "ObjectId alice_hex = 1 \<and> findById_user (users store_reverse) 1 = Some alice \<and>
   \<not> isBanned alice \<and> isPublic alice \<and>
   user_id bob \<noteq> 1 \<and> ''Piano'' \<in> set (skillsOffered bob) \<and>
   ''Painting'' \<in> set (skillsOffered alice) \<and>
   find (\<lambda>x. requester x = user_id bob \<and> receiver x = 1 \<and> skillOffered x = ''Piano'' \<and>
              skillWanted x = ''Painting'' \<and> is_open (status x)) (swaps store_reverse) = None \<and>
   create bob alice_hex ''Piano'' ''Painting'' None 10 store_reverse =
     (Inl (400, ''You already have a pending or accepted request with this user''), store_reverse)"
  by code_simp

text \<open>
  C1 (amended). With the other preconditions of Create holding, for a requester whose
  id is a 12-byte ObjectId and a receiver who is another user: while a pending or
  accepted request from the requester to the receiver exists, whatever its skills, a
  Create for the same ordered pair is refused with 400 "You already have a pending or
  accepted request with this user", whether its skills are the same or different; once
  every request of the pair is rejected, completed or cancelled, a Create with an unused
  id succeeds and inserts a pending request.
\<close>

theorem create_duplicate_by_pair:
  assumes "valid_create_body rid so sw msg"
      and "findById_user (users s) (ObjectId rid) = Some rcv" and "\<not> isBanned rcv" and "isPublic rcv"
      and "user_id u \<noteq> ObjectId rid" and "user_id u < 16 ^ 24"
      and "so \<in> set (skillsOffered u)" and "sw \<in> set (skillsOffered rcv)"
  shows "((\<exists>x \<in> set (swaps s). requester x = user_id u \<and> receiver x = ObjectId rid \<and>
             is_open (status x))
            \<longrightarrow> create u rid so sw msg k s =
                  (Inl (400, ''You already have a pending or accepted request with this user''), s)) \<and>
         ((\<forall>x \<in> set (swaps s). requester x = user_id u \<and> receiver x = ObjectId rid
               \<longrightarrow> status x = Rejected \<or> status x = Completed \<or> status x = Cancelled) \<and>
          (\<forall>x \<in> set (swaps s). swap_id x \<noteq> k)
            \<longrightarrow> create u rid so sw msg k s =
                  (Inr (new_swap k (user_id u) (ObjectId rid) so sw msg),
                   s\<lparr>swaps := swaps s @ [new_swap k (user_id u) (ObjectId rid) so sw msg]\<rparr>))"
proof -
  have "toString (user_id u) \<noteq> rid"
  proof
    assume "toString (user_id u) = rid"
    then have "ObjectId rid = ObjectId (toString (user_id u))" by simp
    with ObjectId_toString [OF assms(6)] assms(5) show False by simp
  qed
  note c = create_after_self_test [OF assms(1) this, of k s]
  show ?thesis
  proof (intro conjI impI)
    assume "\<exists>x \<in> set (swaps s). requester x = user_id u \<and> receiver x = ObjectId rid \<and>
             is_open (status x)"
    then have e: "(\<exists>x \<in> set (swaps s). requester x = user_id u \<and> receiver x = ObjectId rid \<and>
             is_open (status x)) = True" by simp
    show "create u rid so sw msg k s =
        (Inl (400, ''You already have a pending or accepted request with this user''), s)"
      unfolding c e using assms by simp
  next
    assume h: "(\<forall>x \<in> set (swaps s). requester x = user_id u \<and> receiver x = ObjectId rid
               \<longrightarrow> status x = Rejected \<or> status x = Completed \<or> status x = Cancelled) \<and>
          (\<forall>x \<in> set (swaps s). swap_id x \<noteq> k)"
    then have n: "(\<exists>x \<in> set (swaps s). requester x = user_id u \<and> receiver x = ObjectId rid \<and>
        is_open (status x)) = False"
      by (auto simp: is_open_def)
    from h have f: "(\<exists>x \<in> set (swaps s). swap_id x = k) = False" by auto
    show "create u rid so sw msg k s =
        (Inr (new_swap k (user_id u) (ObjectId rid) so sw msg),
         s\<lparr>swaps := swaps s @ [new_swap k (user_id u) (ObjectId rid) so sw msg]\<rparr>)"
      unfolding c n f using assms by simp
  qed
qed

theorem create_duplicate_by_pair_witness:
  "valid_create_body bob_hex ''Cooking'' ''Guitar'' None \<and> ObjectId bob_hex = 2 \<and>
   findById_user (users store_pending) 2 = Some bob \<and> \<not> isBanned bob \<and> isPublic bob \<and>
   user_id alice \<noteq> 2 \<and> user_id alice < 16 ^ 24 \<and> ''Cooking'' \<in> set (skillsOffered alice) \<and>
   ''Guitar'' \<in> set (skillsOffered bob) \<and>
   create alice bob_hex ''Cooking'' ''Guitar'' None 8 store_pending =
     (Inl (400, ''You already have a pending or accepted request with this user''), store_pending) \<and>
   swaps (exec (Reject bob 7 55) store_pending) =
     [pending_ab\<lparr>status := Rejected, rejectedAt := Some 55\<rparr>] \<and>
   fst (create alice bob_hex ''Cooking'' ''Guitar'' None 8 (exec (Reject bob 7 55) store_pending)) =
     Inr (new_swap 8 1 2 ''Cooking'' ''Guitar'' None)"
proof -
  let ?s = "exec (Reject bob 7 55) store_pending"
  have a: "valid_create_body bob_hex ''Cooking'' ''Guitar'' None" by code_simp
  have o: "ObjectId bob_hex = 2" by code_simp
  have b: "findById_user (users store_pending) (ObjectId bob_hex) = Some bob"
    unfolding o by (simp add: eval_simps)
  have c1: "\<not> isBanned bob" and c2: "isPublic bob"
    and c3: "user_id alice \<noteq> ObjectId bob_hex" and c4: "user_id alice < 16 ^ 24"
    and c5: "''Cooking'' \<in> set (skillsOffered alice)" and c6: "''Guitar'' \<in> set (skillsOffered bob)"
    unfolding o by (simp_all add: eval_simps)
  have d: "\<exists>x \<in> set (swaps store_pending).
      requester x = user_id alice \<and> receiver x = ObjectId bob_hex \<and> is_open (status x)"
    unfolding o by (simp add: eval_simps)
  have e: "swaps ?s = [pending_ab\<lparr>status := Rejected, rejectedAt := Some 55\<rparr>]"
    by (simp add: eval_simps)
  have b': "findById_user (users ?s) (ObjectId bob_hex) = Some bob"
    unfolding o by (simp add: eval_simps)
  have f: "(\<forall>x \<in> set (swaps ?s). requester x = user_id alice \<and> receiver x = ObjectId bob_hex
               \<longrightarrow> status x = Rejected \<or> status x = Completed \<or> status x = Cancelled) \<and>
           (\<forall>x \<in> set (swaps ?s). swap_id x \<noteq> 8)"
    unfolding e o by (simp add: eval_simps)
  from create_duplicate_by_pair [OF a b c1 c2 c3 c4 c5 c6, where k = 8] d
  have 1: "create alice bob_hex ''Cooking'' ''Guitar'' None 8 store_pending =
     (Inl (400, ''You already have a pending or accepted request with this user''), store_pending)"
    by blast
  from create_duplicate_by_pair [OF a b' c1 c2 c3 c4 c5 c6, where k = 8] f
  have "create alice bob_hex ''Cooking'' ''Guitar'' None 8 ?s =
      (Inr (new_swap 8 (user_id alice) (ObjectId bob_hex) ''Cooking'' ''Guitar'' None),
       ?s\<lparr>swaps := swaps ?s @
          [new_swap 8 (user_id alice) (ObjectId bob_hex) ''Cooking'' ''Guitar'' None]\<rparr>)"
    by blast
  then have 2: "fst (create alice bob_hex ''Cooking'' ''Guitar'' None 8 ?s) =
     Inr (new_swap 8 1 2 ''Cooking'' ''Guitar'' None)"
    by (simp add: alice_def o)
  from b c1 c2 c3 c4 c5 c6 have g: "findById_user (users store_pending) 2 = Some bob"
    "user_id alice \<noteq> 2" unfolding o by simp_all
  from a o g c1 c2 c4 c5 c6 1 e 2 show ?thesis by blast
qed

text \<open>
  C1 as stated fails: Alice has a pending request to Bob for (Cooking, Guitar); a Create
  for the same pair with the different skills (Painting, Piano), every other precondition
  holding, does not succeed.
\<close>

theorem create_duplicate_by_pair_counterexample:
  "swaps store_pending = [pending_ab] \<and> status pending_ab = Pending \<and>
   requester pending_ab = user_id alice \<and> receiver pending_ab = 2 \<and>
   skillOffered pending_ab \<noteq> ''Painting'' \<and> skillWanted pending_ab \<noteq> ''Piano'' \<and>
   valid_create_body bob_hex ''Painting'' ''Piano'' None \<and> ObjectId bob_hex = 2 \<and>
   findById_user (users store_pending) 2 = Some bob \<and> \<not> isBanned bob \<and> isPublic bob \<and>
   user_id alice \<noteq> 2 \<and> ''Painting'' \<in> set (skillsOffered alice) \<and>
   ''Piano'' \<in> set (skillsOffered bob) \<and>
   create alice bob_hex ''Painting'' ''Piano'' None 8 store_pending =
     (Inl (400, ''You already have a pending or accepted request with this user''), store_pending)"
  by code_simp

section \<open>Completing a swap\<close>

text \<open>What a successful Complete went through.\<close>

lemma complete_success:
  assumes "fst (complete u i rt fb now s) = Inr d"
  obtains r v us' where
    "valid_complete_body rt fb"
    "findById_swap (swaps s) i = Some r"
    "status r = Accepted"
    "user_id u = requester r \<or> user_id u = receiver r"
    "findById_user (users s) (if requester r = user_id u then receiver r else requester r) = Some v"
    "updateRating v rt (users s) = Some us'"
    "d = pre_save now r (r\<lparr>status := Completed, req_rating := Some rt, feedback := fb\<rparr>)"
    "snd (complete u i rt fb now s) =
       s\<lparr>swaps := map (\<lambda>x. if swap_id x = i then d else x) (swaps s), users := us'\<rparr>"
proof -
  from assms have vb: "valid_complete_body rt fb"
    by (auto simp: complete_def split: if_splits)
  from assms vb obtain r where r: "findById_swap (swaps s) i = Some r"
    by (auto simp: complete_def split: option.splits)
  have id: "swap_id r = i" using r by (rule findById_swap_id)
  from assms vb r have rq: "findById_user (users s) (requester r) \<noteq> None"
    by (auto simp: complete_def populate_eq split: if_splits)
  from assms vb r rq have st: "status r = Accepted"
    and party: "user_id u = requester r \<or> user_id u = receiver r"
    by (auto simp: complete_def populate_eq Let_def split: if_splits)
  let ?o = "if requester r = user_id u then receiver r else requester r"
  from assms vb r rq st party obtain v where v: "findById_user (users s) ?o = Some v"
    by (auto simp: complete_def populate_eq Let_def swap_save_def split: if_splits)
  let ?d = "pre_save now r (r\<lparr>status := Completed, req_rating := Some rt, feedback := fb\<rparr>)"
  from assms vb r rq st party v id obtain us' where
    us: "updateRating v rt (users s) = Some us'" and d: "d = ?d"
    and s': "snd (complete u i rt fb now s) =
       s\<lparr>swaps := map (\<lambda>x. if swap_id x = i then d else x) (swaps s), users := us'\<rparr>"
    by (auto simp: complete_def populate_eq Let_def swap_save_def
        split: if_splits option.splits)
  from vb r st party v us d s' show ?thesis by (rule that)
qed

text \<open>
  When Complete succeeds on a request whose two parties differ, the request was accepted
  and is now stored as completed with \<open>completedAt\<close> set and the given rating and
  feedback; the other party's user record has \<open>ratingSum\<close> increased by the rating,
  \<open>totalRatings\<close> increased by one and \<open>rating\<close> equal to the new sum over the new
  count rounded to one decimal; the acting party's record, like every other user's, is as
  before.
\<close>

lemma complete_effect:
  assumes "fst (complete u i rt fb now s) = Inr d"
      and "findById_swap (swaps s) i = Some r"
      and "requester r \<noteq> receiver r"
      and "other = (if requester r = user_id u then receiver r else requester r)"
  shows "status r = Accepted \<and>
         findById_swap (swaps (snd (complete u i rt fb now s))) i = Some d \<and>
         d = r\<lparr>status := Completed, req_rating := Some rt, feedback := fb,
               completedAt := (if completedAt r = None then Some now else completedAt r)\<rparr> \<and>
         completedAt d \<noteq> None \<and>
         (\<exists>v. findById_user (users s) other = Some v \<and>
              findById_user (users (snd (complete u i rt fb now s))) other =
                Some (v\<lparr>ratingSum := ratingSum v + rt, totalRatings := totalRatings v + 1,
                        rating := round_half_away
                          (of_int (ratingSum v + rt) / of_nat (totalRatings v + 1))\<rparr>)) \<and>
         findById_user (users (snd (complete u i rt fb now s))) (user_id u) =
           findById_user (users s) (user_id u) \<and>
         (\<forall>k. k \<noteq> other \<longrightarrow> findById_user (users (snd (complete u i rt fb now s))) k =
                               findById_user (users s) k)"
proof -
  from assms(1) obtain r0 v us' where
    r0: "findById_swap (swaps s) i = Some r0" and st: "status r0 = Accepted"
    and party: "user_id u = requester r0 \<or> user_id u = receiver r0"
    and v: "findById_user (users s) (if requester r0 = user_id u then receiver r0 else requester r0) = Some v"
    and us: "updateRating v rt (users s) = Some us'"
    and d: "d = pre_save now r0 (r0\<lparr>status := Completed, req_rating := Some rt, feedback := fb\<rparr>)"
    and s': "snd (complete u i rt fb now s) =
       s\<lparr>swaps := map (\<lambda>x. if swap_id x = i then d else x) (swaps s), users := us'\<rparr>"
    by (rule complete_success)
  from r0 assms(2) have eq: "r0 = r" by simp
  note st = st [unfolded eq] and party = party [unfolded eq] and v = v [unfolded eq]
    and d = d [unfolded eq]
  have id: "swap_id r = i" using assms(2) by (rule findById_swap_id)
  have idd: "swap_id d = i" using d id by simp
  have vid: "user_id v = other" using v assms(4) by (auto dest: findById_user_id)
  let ?v' = "v\<lparr>ratingSum := ratingSum v + rt, totalRatings := totalRatings v + 1,
                rating := round_half_away (of_int (ratingSum v + rt) / of_nat (totalRatings v + 1))\<rparr>"
  have us': "us' = map (\<lambda>x. if user_id x = other then ?v' else x) (users s)"
    using updateRating_result [OF us] vid by simp
  have idv': "user_id ?v' = other" using vid by simp
  have 1: "status r = Accepted" using st by simp
  have 2: "findById_swap (swaps (snd (complete u i rt fb now s))) i = Some d"
    using assms(2) by (simp add: s' findById_swap_replace [OF idd])
  have 3: "d = r\<lparr>status := Completed, req_rating := Some rt, feedback := fb,
               completedAt := (if completedAt r = None then Some now else completedAt r)\<rparr>"
    using d st by (simp add: pre_save_def)
  have 4: "completedAt d \<noteq> None" unfolding 3 by simp
  have 5: "findById_user (users s) other = Some v" using v assms(4) by simp
  have 6: "findById_user (users (snd (complete u i rt fb now s))) other = Some ?v'"
    unfolding s' us' using 5 by (simp add: findById_user_replace [OF idv'])
  have 7: "other \<noteq> user_id u" using party assms(3,4) by auto
  have 8: "\<forall>k. k \<noteq> other \<longrightarrow> findById_user (users (snd (complete u i rt fb now s))) k =
                               findById_user (users s) k"
    unfolding s' us' by (simp add: findById_user_replace [OF idv'])
  from 7 8 have 9: "findById_user (users (snd (complete u i rt fb now s))) (user_id u) =
           findById_user (users s) (user_id u)" by metis
  from 1 2 3 4 5 6 8 9 show ?thesis by blast
qed


text \<open>
  C2. A successful Complete is to update the rating of the other party and leave the
  acting party's own rating fields unchanged. The code does not do so on a request whose
  requester is its receiver, and such a request can be made: Dave sends his own id with
  an upper-case letter, which casts to his ObjectId but is not the string \<open>toString()\<close>
  prints, so the self-request test of Create passes. He accepts the request as its
  receiver and completes it with rating 1: Complete succeeds, and Dave's own rating
  fields go from (5, 0, 0) to (1, 1, 1).
\<close>

theorem self_request_rates_acting_party:
  "isMongoId dave_upper \<and> ObjectId dave_upper = user_id dave \<and>
   toString (user_id dave) \<noteq> dave_upper \<and>
   swaps (exec (Accept dave 11 20)
            (exec (Create dave dave_upper ''Chess'' ''Go'' None 11) store_dave)) =
     [(new_swap 11 10 10 ''Chess'' ''Go'' None)\<lparr>status := Accepted, acceptedAt := Some 20\<rparr>] \<and>
   map_option rating_state
     (findById_user
        (users (exec (Accept dave 11 20)
                  (exec (Create dave dave_upper ''Chess'' ''Go'' None 11) store_dave)))
        (user_id dave)) = Some (5, 0, 0) \<and>
   fst (complete dave 11 1 None 30
          (exec (Accept dave 11 20)
             (exec (Create dave dave_upper ''Chess'' ''Go'' None 11) store_dave))) =
     Inr ((new_swap 11 10 10 ''Chess'' ''Go'' None)
            \<lparr>status := Completed, req_rating := Some 1, completedAt := Some 30,
              acceptedAt := Some 20\<rparr>) \<and>
   map_option rating_state
     (findById_user
        (users (snd (complete dave 11 1 None 30
                  (exec (Accept dave 11 20)
                     (exec (Create dave dave_upper ''Chess'' ''Go'' None 11) store_dave)))))
        (user_id dave)) = Some (1, 1, 1)"
  by code_simp

text \<open>
  C6. Complete on a request that is pending, rejected, completed or cancelled fails and
  leaves the store, and so the request, as it was; for a valid body, a caller who is a
  party and both parties present in the store, the answer is 400 "Request must be accepted
  before completion".
\<close>

theorem complete_requires_accepted:
  assumes "findById_swap (swaps s) i = Some r"
      and "status r = Pending \<or> status r = Rejected \<or> status r = Completed \<or> status r = Cancelled"
  shows "snd (complete u i rt fb now s) = s \<and> isl (fst (complete u i rt fb now s)) \<and>
         (valid_complete_body rt fb \<and> (user_id u = requester r \<or> user_id u = receiver r) \<and>
          findById_user (users s) (requester r) \<noteq> None \<and>
          findById_user (users s) (receiver r) \<noteq> None
            \<longrightarrow> complete u i rt fb now s =
                  (Inl (400, ''Request must be accepted before completion''), s))"
proof -
  have st: "status r \<noteq> Accepted" using assms(2) by auto
  have 1: "snd (complete u i rt fb now s) = s \<and> isl (fst (complete u i rt fb now s))"
    by (simp add: complete_def Let_def assms(1) st split: option.splits)
  have 2: "complete u i rt fb now s =
             (Inl (400, ''Request must be accepted before completion''), s)"
    if h: "valid_complete_body rt fb" "user_id u = requester r \<or> user_id u = receiver r"
      "findById_user (users s) (requester r) \<noteq> None"
      "findById_user (users s) (receiver r) \<noteq> None"
  proof -
    have rq: "populate (users s) (requester r) = Some (requester r)"
      using h(3) by (simp add: populate_eq)
    have rc: "populate (users s) (receiver r) = Some (receiver r)"
      using h(4) by (simp add: populate_eq)
    from h(2) show ?thesis
      by (auto simp: complete_def Let_def h(1) assms(1) rq rc st)
  qed
  from 1 2 show ?thesis by blast
qed

theorem complete_requires_accepted_witness:
  "findById_swap (swaps store_pending) 7 = Some pending_ab \<and> status pending_ab = Pending \<and>
   valid_complete_body 4 None \<and> user_id bob = receiver pending_ab \<and>
   complete bob 7 4 None 100 store_pending =
     (Inl (400, ''Request must be accepted before completion''), store_pending)"
proof -
  have a: "valid_complete_body 4 None" by (simp add: eval_simps)
  have b: "findById_swap (swaps store_pending) 7 = Some pending_ab" by (simp add: eval_simps)
  have c: "user_id bob = receiver pending_ab" by (simp add: eval_simps)
  have d: "findById_user (users store_pending) (requester pending_ab) \<noteq> None"
    "findById_user (users store_pending) (receiver pending_ab) \<noteq> None"
    by (simp_all add: eval_simps)
  have e: "status pending_ab = Pending" by (simp add: eval_simps)
  from complete_requires_accepted [OF b disjI1 [OF e], of bob 4 None 100] a c d
  have "complete bob 7 4 None 100 store_pending =
     (Inl (400, ''Request must be accepted before completion''), store_pending)"
    by blast
  with a b c e show ?thesis by blast
qed

text \<open>
  C3 (amended). Let the request exist and be accepted, the caller be a party, and the
  counterpart be absent from the store. Then Complete applies no rating: no user record
  changes. The request is saved before the counterpart is looked up and nothing undoes
  the save: the swap requests are left either as they were or with this request stored
  as completed, with the rating, the feedback and \<open>completedAt\<close>.
\<close>

theorem complete_counterpart_missing:
  assumes "findById_swap (swaps s) i = Some r"
      and "status r = Accepted"
      and "user_id u = requester r \<or> user_id u = receiver r"
      and "findById_user (users s) (if requester r = user_id u then receiver r else requester r) = None"
  shows "users (snd (complete u i rt fb now s)) = users s \<and>
         (swaps (snd (complete u i rt fb now s)) = swaps s \<or>
          findById_swap (swaps (snd (complete u i rt fb now s))) i =
            Some (r\<lparr>status := Completed, req_rating := Some rt, feedback := fb,
                    completedAt := (if completedAt r = None then Some now else completedAt r)\<rparr>))"
proof (cases "valid_complete_body rt fb \<and> findById_user (users s) (requester r) \<noteq> None")
  case False
  then have "snd (complete u i rt fb now s) = s"
    by (auto simp: complete_def assms(1) populate_eq)
  then show ?thesis by simp
next
  case True
  then have vb: "valid_complete_body rt fb"
    and rq: "populate (users s) (requester r) = Some (requester r)"
    by (simp_all add: populate_eq)
  from True assms(4) have req: "user_id u = requester r" by (auto split: if_splits)
  with assms(4) have rc: "populate (users s) (receiver r) = None"
    by (simp add: populate_eq)
  have id: "swap_id r = i" using assms(1) by (rule findById_swap_id)
  let ?d = "pre_save now r (r\<lparr>status := Completed, req_rating := Some rt, feedback := fb\<rparr>)"
  have idd: "swap_id ?d = i" using id by simp
  have c: "complete u i rt fb now s =
      (Inl (500, ''Server error completing swap request''),
       s\<lparr>swaps := map (\<lambda>x. if swap_id x = i then ?d else x) (swaps s)\<rparr>)"
    by (simp add: complete_def Let_def swap_save_def assms(1,2) vb rq rc req id)
  have "?d = r\<lparr>status := Completed, req_rating := Some rt, feedback := fb,
                 completedAt := (if completedAt r = None then Some now else completedAt r)\<rparr>"
    using assms(2) by (simp add: pre_save_def)
  with c assms(1) show ?thesis
    by (simp add: findById_swap_replace [OF idd])
qed

theorem complete_counterpart_missing_witness:
  "findById_swap (swaps store_dangling) 7 = Some accepted_ab \<and>
   status accepted_ab = Accepted \<and> user_id alice = requester accepted_ab \<and>
   findById_user (users store_dangling) (receiver accepted_ab) = None \<and>
   users (snd (complete alice 7 5 None 100 store_dangling)) = users store_dangling \<and>
   findById_swap (swaps (snd (complete alice 7 5 None 100 store_dangling))) 7 =
     Some (accepted_ab\<lparr>status := Completed, req_rating := Some 5, completedAt := Some 100\<rparr>) \<and>
   findById_swap (swaps store_orphan) 7 = Some accepted_ab \<and>
   user_id bob = receiver accepted_ab \<and>
   findById_user (users store_orphan) (requester accepted_ab) = None \<and>
   users (snd (complete bob 7 5 None 100 store_orphan)) = users store_orphan \<and>
   swaps (snd (complete bob 7 5 None 100 store_orphan)) = swaps store_orphan"
proof -
  let ?d = "accepted_ab\<lparr>status := Completed, req_rating := Some 5, completedAt := Some 100\<rparr>"
  have b: "findById_swap (swaps store_dangling) 7 = Some accepted_ab" by (simp add: eval_simps)
  have c: "status accepted_ab = Accepted" by (simp add: eval_simps)
  have d: "user_id alice = requester accepted_ab" by (simp add: eval_simps)
  have f: "findById_user (users store_dangling) (receiver accepted_ab) = None"
    by (simp add: eval_simps)
  have f': "findById_user (users store_dangling)
      (if requester accepted_ab = user_id alice then receiver accepted_ab
       else requester accepted_ab) = None"
    by (simp add: eval_simps)
  have g: "accepted_ab\<lparr>status := Completed, req_rating := Some 5, feedback := None,
      completedAt := (if completedAt accepted_ab = None then Some 100 else completedAt accepted_ab)\<rparr>
      = ?d"
    by (simp add: eval_simps)
  have n: "swaps (snd (complete alice 7 5 None 100 store_dangling)) \<noteq> swaps store_dangling"
    by (simp add: eval_simps)
  from complete_counterpart_missing [OF b c disjI1 [OF d] f', of 5 None 100] n
  have 1: "users (snd (complete alice 7 5 None 100 store_dangling)) = users store_dangling"
   and 2: "findById_swap (swaps (snd (complete alice 7 5 None 100 store_dangling))) 7 = Some ?d"
    unfolding g by simp_all
  have b2: "findById_swap (swaps store_orphan) 7 = Some accepted_ab" by (simp add: eval_simps)
  have d2: "user_id bob = receiver accepted_ab" by (simp add: eval_simps)
  have f2: "findById_user (users store_orphan) (requester accepted_ab) = None"
    by (simp add: eval_simps)
  have f2': "findById_user (users store_orphan)
      (if requester accepted_ab = user_id bob then receiver accepted_ab
       else requester accepted_ab) = None"
    by (simp add: eval_simps)
  have m: "findById_swap (swaps (snd (complete bob 7 5 None 100 store_orphan))) 7 \<noteq>
      Some (accepted_ab\<lparr>status := Completed, req_rating := Some 5, feedback := None,
        completedAt := (if completedAt accepted_ab = None then Some 100
                        else completedAt accepted_ab)\<rparr>)"
    by (simp add: eval_simps)
  from complete_counterpart_missing [OF b2 c disjI2 [OF d2] f2', of 5 None 100] m
  have 3: "users (snd (complete bob 7 5 None 100 store_orphan)) = users store_orphan"
   and 4: "swaps (snd (complete bob 7 5 None 100 store_orphan)) = swaps store_orphan"
    by simp_all
  from b c d f 1 2 b2 d2 f2 3 4 show ?thesis by blast
qed

text \<open>
  C3 as stated fails: Alice completes her accepted request to a receiver who is not in
  the store; afterwards the request is marked completed and no user's rating has changed.
\<close>

theorem complete_counterpart_missing_counterexample:
  "findById_swap (swaps store_dangling) 7 = Some accepted_ab \<and>
   status accepted_ab = Accepted \<and> requester accepted_ab = user_id alice \<and>
   findById_user (users store_dangling) (receiver accepted_ab) = None \<and>
   map_option status (findById_swap (swaps (snd (complete alice 7 5 None 100 store_dangling))) 7) =
     Some Completed \<and>
   users (snd (complete alice 7 5 None 100 store_dangling)) = users store_dangling"
  by (simp add: eval_simps)

section \<open>The ban cascade\<close>

lemma ban_success:
  assumes "findById_user (users s) i = Some u" and "\<not> isAdmin u" and "\<not> isBanned u"
      and "validate_user u"
  shows "ban i s =
     (Inr (u\<lparr>isBanned := True, isPublic := False\<rparr>),
      s\<lparr>users := map (\<lambda>x. if user_id x = i then u\<lparr>isBanned := True, isPublic := False\<rparr> else x)
                    (users s),
        swaps := updateMany (\<lambda>r. (requester r = i \<or> receiver r = i) \<and> status r = Pending)
                   (\<lambda>r. r\<lparr>status := Cancelled\<rparr>) (swaps s)\<rparr>)"
proof -
  have id: "user_id u = i" using assms(1) by (rule findById_user_id)
  have v: "validate_user (u\<lparr>isBanned := True, isPublic := False\<rparr>)"
    using assms(4) by (simp add: validate_user_def)
  from assms v id show ?thesis by (simp add: ban_def user_save_def Let_def)
qed

lemma findById_user_replace_exists:
  assumes "user_id d = k" and "findById_user us j \<noteq> None"
  shows "findById_user (map (\<lambda>x. if user_id x = k then d else x) us) j \<noteq> None"
  using assms by (auto simp: findById_user_replace)

text \<open>
  C4. Banning a user who is neither an admin nor banned succeeds, and in the swap
  collection every request with that user as requester or receiver and status pending
  becomes cancelled, with no check of who asks, while every other request is left as it
  was. Afterwards an Accept by the receiver of a request cancelled this way answers
  400 "Request is not pending" and changes nothing.
\<close>

theorem ban_cascade:
  assumes "findById_user (users s) i = Some u" and "\<not> isAdmin u" and "\<not> isBanned u"
      and "validate_user u"
  shows "fst (ban i s) = Inr (u\<lparr>isBanned := True, isPublic := False\<rparr>) \<and>
         length (swaps (snd (ban i s))) = length (swaps s) \<and>
         (\<forall>k < length (swaps s).
            swaps (snd (ban i s)) ! k =
              (if (requester (swaps s ! k) = i \<or> receiver (swaps s ! k) = i) \<and>
                  status (swaps s ! k) = Pending
               then (swaps s ! k)\<lparr>status := Cancelled\<rparr> else swaps s ! k)) \<and>
         (\<forall>j r v now.
            findById_swap (swaps s) j = Some r \<and> (requester r = i \<or> receiver r = i) \<and>
            status r = Pending \<and> user_id v = receiver r \<and>
            findById_user (users s) (receiver r) \<noteq> None
            \<longrightarrow> findById_swap (swaps (snd (ban i s))) j = Some (r\<lparr>status := Cancelled\<rparr>) \<and>
                accept v j now (snd (ban i s)) =
                  (Inl (400, ''Request is not pending''), snd (ban i s)))"
proof -
  note b = ban_success [OF assms]
  let ?u' = "u\<lparr>isBanned := True, isPublic := False\<rparr>"
  have idu: "user_id ?u' = i" using findById_user_id [OF assms(1)] by simp
  have 1: "fst (ban i s) = Inr ?u'" by (simp add: b)
  have 2: "length (swaps (snd (ban i s))) = length (swaps s)"
    by (simp add: b updateMany_def)
  have 3: "\<forall>k < length (swaps s).
            swaps (snd (ban i s)) ! k =
              (if (requester (swaps s ! k) = i \<or> receiver (swaps s ! k) = i) \<and>
                  status (swaps s ! k) = Pending
               then (swaps s ! k)\<lparr>status := Cancelled\<rparr> else swaps s ! k)"
    by (simp add: b updateMany_def)
  have 4: "findById_swap (swaps (snd (ban i s))) j = Some (r\<lparr>status := Cancelled\<rparr>) \<and>
           accept v j now (snd (ban i s)) = (Inl (400, ''Request is not pending''), snd (ban i s))"
    if h: "findById_swap (swaps s) j = Some r" "requester r = i \<or> receiver r = i"
      "status r = Pending" "user_id v = receiver r"
      "findById_user (users s) (receiver r) \<noteq> None" for j r v now
  proof -
    have f: "findById_swap (swaps (snd (ban i s))) j = Some (r\<lparr>status := Cancelled\<rparr>)"
      using h(1,2,3) by (simp add: b findById_swap_updateMany)
    have "findById_user (users (snd (ban i s))) (receiver r) \<noteq> None"
      unfolding b using findById_user_replace_exists [OF idu h(5)] by simp
    then have p: "populate (users (snd (ban i s))) (receiver r) = Some (receiver r)"
      by (simp add: populate_eq)
    have "accept v j now (snd (ban i s)) = (Inl (400, ''Request is not pending''), snd (ban i s))"
      using p h(4) by (simp add: accept_def f)
    with f show ?thesis by simp
  qed
  from 1 2 3 4 show ?thesis by blast
qed

theorem ban_cascade_witness:
  "findById_user (users store_mixed) 1 = Some alice \<and> \<not> isAdmin alice \<and> \<not> isBanned alice \<and>
   validate_user alice \<and>
   swaps store_mixed = [pending_ab, accepted_ba] \<and>
   requester pending_ab = 1 \<and> status pending_ab = Pending \<and>
   receiver accepted_ba = 1 \<and> status accepted_ba = Accepted \<and>
   swaps (snd (ban 1 store_mixed)) = [pending_ab\<lparr>status := Cancelled\<rparr>, accepted_ba] \<and>
   user_id bob = receiver pending_ab \<and>
   accept bob 7 60 (snd (ban 1 store_mixed)) =
     (Inl (400, ''Request is not pending''), snd (ban 1 store_mixed))"
proof -
  have a: "findById_user (users store_mixed) 1 = Some alice" by (simp add: eval_simps)
  have b: "\<not> isAdmin alice" "\<not> isBanned alice" "validate_user alice"
    by (simp_all add: eval_simps)
  have l: "swaps store_mixed = [pending_ab, accepted_ba]" by (simp add: store_mixed_def)
  have c: "findById_swap (swaps store_mixed) 7 = Some pending_ab" by (simp add: eval_simps)
  have d: "requester pending_ab = 1" "status pending_ab = Pending"
    "user_id bob = receiver pending_ab"
    "findById_user (users store_mixed) (receiver pending_ab) \<noteq> None"
    by (simp_all add: eval_simps)
  have e: "receiver accepted_ba = 1" "status accepted_ba = Accepted"
    by (simp_all add: eval_simps)
  note t = ban_cascade [OF a b]
  from t c d
  have 1: "accept bob 7 60 (snd (ban 1 store_mixed)) =
          (Inl (400, ''Request is not pending''), snd (ban 1 store_mixed))"
    by blast
  from t have n: "length (swaps (snd (ban 1 store_mixed))) = length (swaps store_mixed)"
    and k: "\<forall>k < length (swaps store_mixed).
            swaps (snd (ban 1 store_mixed)) ! k =
              (if (requester (swaps store_mixed ! k) = 1 \<or> receiver (swaps store_mixed ! k) = 1) \<and>
                  status (swaps store_mixed ! k) = Pending
               then (swaps store_mixed ! k)\<lparr>status := Cancelled\<rparr> else swaps store_mixed ! k)"
    by blast+
  from k have k0: "swaps (snd (ban 1 store_mixed)) ! 0 = pending_ab\<lparr>status := Cancelled\<rparr>"
    unfolding l using d by simp
  from k have "swaps (snd (ban 1 store_mixed)) ! Suc 0 =
      (if (requester accepted_ba = 1 \<or> receiver accepted_ba = 1) \<and> status accepted_ba = Pending
       then accepted_ba\<lparr>status := Cancelled\<rparr> else accepted_ba)"
    unfolding l by simp
  then have k1: "swaps (snd (ban 1 store_mixed)) ! Suc 0 = accepted_ba"
    using e by simp
  from n have "length (swaps (snd (ban 1 store_mixed))) = Suc (Suc 0)" unfolding l by simp
  then obtain x y where xy: "swaps (snd (ban 1 store_mixed)) = [x, y]"
    by (auto simp: length_Suc_conv)
  with k0 k1 have 2: "swaps (snd (ban 1 store_mixed)) = [pending_ab\<lparr>status := Cancelled\<rparr>, accepted_ba]"
    by simp
  from a b l d e 1 2 show ?thesis by blast
qed

end
